theory Spec2Isabelle
  imports Complex_Main "HOL-Library.Multiset" "HOL-Library.AList"
begin

section \<open>JavaScript values used by App.js\<close>

text \<open>
  Strings are lists of code units; the development covers the code units below 256
  (Latin-1), which is what \<^typ>\<open>char\<close> holds. A field of a parsed CSV row is a string or
  \<open>undefined\<close> (a row shorter than the header), hence \<^typ>\<open>string option\<close>.
  A number that the analyser computes is an integer or \<open>NaN\<close>: \<^typ>\<open>int option\<close>, with
  \<open>None\<close> for \<open>NaN\<close>.
\<close>

type_synonym num = "int option"

definition num_sub :: "num \<Rightarrow> num \<Rightarrow> num" where
  "num_sub a b = (case a of None \<Rightarrow> None | Some x \<Rightarrow> (case b of None \<Rightarrow> None | Some y \<Rightarrow> Some (x - y)))"

definition num_add :: "num \<Rightarrow> num \<Rightarrow> num" where
  "num_add a b = (case a of None \<Rightarrow> None | Some x \<Rightarrow> (case b of None \<Rightarrow> None | Some y \<Rightarrow> Some (x + y)))"

text \<open>Comparisons with \<open>NaN\<close> are false.\<close>

definition num_gt :: "num \<Rightarrow> int \<Rightarrow> bool" where
  "num_gt a k = (case a of None \<Rightarrow> False | Some x \<Rightarrow> x > k)"

definition num_lt :: "num \<Rightarrow> int \<Rightarrow> bool" where
  "num_lt a k = (case a of None \<Rightarrow> False | Some x \<Rightarrow> x < k)"

definition num_ge :: "num \<Rightarrow> int \<Rightarrow> bool" where
  "num_ge a k = (case a of None \<Rightarrow> False | Some x \<Rightarrow> x \<ge> k)"

text \<open>\<open>\s\<close> and the white space that \<open>parseInt\<close> skips: TAB, LF, VT, FF, CR, SP, NBSP.\<close>

definition is_space :: "char \<Rightarrow> bool" where
  "is_space c = ((of_char c :: nat) \<in> {9, 10, 11, 12, 13, 32, 160})"

text \<open>The value of a digit in radix up to 36.\<close>

definition digit_val :: "char \<Rightarrow> nat option" where
  "digit_val c =
     (let n = (of_char c :: nat)
      in if 48 \<le> n \<and> n \<le> 57 then Some (n - 48)
         else if 97 \<le> n \<and> n \<le> 122 then Some (n - 87)
         else if 65 \<le> n \<and> n \<le> 90 then Some (n - 55)
         else None)"

definition is_radix_digit :: "nat \<Rightarrow> char \<Rightarrow> bool" where
  "is_radix_digit R c = (case digit_val c of None \<Rightarrow> False | Some v \<Rightarrow> v < R)"

definition digits_value :: "nat \<Rightarrow> string \<Rightarrow> nat" where
  "digits_value R ds = foldl (\<lambda>a c. a * R + (case digit_val c of None \<Rightarrow> 0 | Some v \<Rightarrow> v)) 0 ds"

text \<open>
  \<open>parseInt(s)\<close> and \<open>parseInt(s, 10)\<close>: leading white space is skipped, one sign is read,
  without a radix a prefix \<open>0x\<close> selects radix 16, and the longest prefix of digits is
  the value; no digit gives \<open>NaN\<close>. The flag says whether the radix argument is absent.
  The value is taken exactly (a literal beyond 2 to the power 53 is not rounded to a
  double).
\<close>

definition parseInt_with :: "bool \<Rightarrow> string \<Rightarrow> num" where
  "parseInt_with no_radix s =
     (let s0 = dropWhile is_space s;
          neg = (case s0 of [] \<Rightarrow> False | c # _ \<Rightarrow> c = CHR ''-'');
          s1 = (case s0 of [] \<Rightarrow> [] | c # cs \<Rightarrow> if c = CHR ''-'' \<or> c = CHR ''+'' then cs else s0);
          hex = (no_radix \<and> (take 2 s1 = ''0x'' \<or> take 2 s1 = ''0X''));
          R = (if hex then 16 else 10);
          s2 = (if hex then drop 2 s1 else s1);
          z = takeWhile (is_radix_digit R) s2
      in if z = [] then None
         else Some ((if neg then - 1 else 1) * int (digits_value R z)))"

definition parseInt :: "string \<Rightarrow> num" where
  "parseInt s = parseInt_with True s"

definition parseInt10 :: "string \<Rightarrow> num" where
  "parseInt10 s = parseInt_with False s"

text \<open>\<open>s.split(c)\<close> for a one-character separator; the empty string gives one empty part.\<close>

fun split_on :: "char \<Rightarrow> string \<Rightarrow> string list" where
  "split_on c [] = [[]]"
| "split_on c (x # xs) =
     (if x = c then [] # split_on c xs
      else (case split_on c xs of [] \<Rightarrow> [[x]] | p # ps \<Rightarrow> (x # p) # ps))"

definition str_includes :: "string \<Rightarrow> char \<Rightarrow> bool" where
  "str_includes s c = (c \<in> set s)"

section \<open>Dates\<close>

text \<open>
  A \<open>Date\<close> is its time value: milliseconds since the epoch, or \<open>NaN\<close> (Invalid Date).
  \<open>new Date(year, month, day, hours, minutes)\<close> reads its arguments as local time; the
  engine's conversion from local time to UTC is the parameter \<open>utc\<close>.
\<close>

definition days_from_civil :: "int \<Rightarrow> int \<Rightarrow> int" where
  "days_from_civil y m =
     (let y' = (if m \<le> 2 then y - 1 else y);
          mp = (m + 9) mod 12
      in 365 * y' + y' div 4 - y' div 100 + y' div 400 + (153 * mp + 2) div 5 - 719468)"

definition MakeDay :: "int \<Rightarrow> int \<Rightarrow> int \<Rightarrow> int" where
  "MakeDay year month dt = days_from_civil (year + month div 12) (month mod 12 + 1) + dt - 1"

definition MakeTime :: "int \<Rightarrow> int \<Rightarrow> int" where
  "MakeTime hour minute = hour * 3600000 + minute * 60000"

definition TimeClip :: "int \<Rightarrow> num" where
  "TimeClip t = (if \<bar>t\<bar> > 8640000000000000 then None else Some t)"

definition new_Date :: "(int \<Rightarrow> int) \<Rightarrow> num \<Rightarrow> num \<Rightarrow> num \<Rightarrow> num \<Rightarrow> num \<Rightarrow> num" where
  "new_Date utc year month day hours minutes =
     (case (year, month, day, hours, minutes) of
        (Some y, Some m, Some d, Some h, Some mi) \<Rightarrow>
          (let yr = (if 0 \<le> y \<and> y \<le> 99 then 1900 + y else y)
           in TimeClip (utc (MakeDay yr m d * 86400000 + MakeTime h mi)))
      | _ \<Rightarrow> None)"

section \<open>parseDate\<close>

text \<open>
  \<open>parseDate\<close> returns \<open>null\<close> (\<open>None\<close>), \<open>new Date()\<close> or
  \<open>new Date(year, month, day, hours, minutes)\<close>. The constructor call is kept as a
  value so that its arguments can be read; \<open>date_value\<close> evaluates it.
\<close>

datatype date_expr = Date_now | Date_of (year: num) (month: num) (day: num) (hours: num) (minutes: num)

definition parseDate :: "string option \<Rightarrow> string option \<Rightarrow> date_expr option" where
  "parseDate dateStr timeStr =
     (case dateStr of
        None \<Rightarrow> None
      | Some ds \<Rightarrow>
          if ds = [] then None
          else if \<not> str_includes ds CHR ''/'' \<and> \<not> str_includes ds CHR ''-'' then Some Date_now
          else
            (let dateParts = (if str_includes ds CHR ''/'' then split_on CHR ''/'' ds
                              else split_on CHR ''-'' ds)
             in if length dateParts \<noteq> 3 then Some Date_now
                else
                  (let (day, month, year) =
                         (if num_gt (parseInt (dateParts ! 0)) 12
                          then (parseInt10 (dateParts ! 0),
                                num_sub (parseInt10 (dateParts ! 1)) (Some 1),
                                parseInt10 (dateParts ! 2))
                          else
                            (let year = parseInt10 (dateParts ! 2)
                             in (parseInt10 (dateParts ! 0),
                                 num_sub (parseInt10 (dateParts ! 1)) (Some 1),
                                 if num_lt year 100 then num_add year (Some 2000) else year)));
                       (hours, minutes) =
                         (case timeStr of
                            None \<Rightarrow> (Some 0, Some 0)
                          | Some ts \<Rightarrow>
                              if ts = [] then (Some 0, Some 0)
                              else
                                (let timeParts = split_on CHR '':'' ts
                                 in if length timeParts \<ge> 2
                                    then (parseInt10 (timeParts ! 0), parseInt10 (timeParts ! 1))
                                    else (Some 0, Some 0)))
                   in Some (Date_of year month day hours minutes))))"

text \<open>The time value of the object \<open>parseDate\<close> returned; \<open>now\<close> is the clock reading.\<close>

definition date_value :: "(int \<Rightarrow> int) \<Rightarrow> int \<Rightarrow> date_expr \<Rightarrow> num" where
  "date_value utc now e =
     (case e of Date_now \<Rightarrow> Some now
      | Date_of y m d h mi \<Rightarrow> new_Date utc y m d h mi)"

text \<open>\<open>new Date(parseDate(row.date, row.time))\<close>: \<open>new Date(null)\<close> is the epoch.\<close>

definition resolve :: "(int \<Rightarrow> int) \<Rightarrow> int \<Rightarrow> string option \<Rightarrow> string option \<Rightarrow> num" where
  "resolve utc now dateStr timeStr =
     (case parseDate dateStr timeStr of None \<Rightarrow> Some 0 | Some e \<Rightarrow> date_value utc now e)"

section \<open>Rows and sorting\<close>

text \<open>
  A row as the CSV library delivers it (the six columns the analyser reads; the
  \<open>datetime\<close> column of the file is overwritten at upload), and a row of the dataset, which
  carries the \<open>Date\<close> stored under \<open>datetime\<close>.
\<close>

record csv_row =
  date :: "string option"
  time :: "string option"
  hour :: "string option"
  weekday :: "string option"
  sender :: "string option"
  message :: "string option"

record chat_row = csv_row +
  datetime :: num

definition with_datetime :: "num \<Rightarrow> csv_row \<Rightarrow> chat_row" where
  "with_datetime t row =
     \<lparr>date = date row, time = time row, hour = hour row, weekday = weekday row,
      sender = sender row, message = message row, datetime = t\<rparr>"

text \<open>\<open>a <= b\<close> on numbers: false when either is \<open>NaN\<close>.\<close>

definition num_le :: "num \<Rightarrow> num \<Rightarrow> bool" where
  "num_le a b = (case a of None \<Rightarrow> False | Some x \<Rightarrow> (case b of None \<Rightarrow> False | Some y \<Rightarrow> x \<le> y))"

text \<open>
  \<open>Array.prototype.sort\<close> with a comparator. The language requires a stable sort and
  reads a \<open>NaN\<close> from the comparator as 0; when the comparator is not consistent the order
  is left to the engine. The model is the stable insertion sort, which coincides with
  every engine on consistent comparators.
\<close>

fun js_insert :: "('a \<Rightarrow> 'a \<Rightarrow> num) \<Rightarrow> 'a \<Rightarrow> 'a list \<Rightarrow> 'a list" where
  "js_insert cmp x [] = [x]"
| "js_insert cmp x (y # ys) =
     (if num_gt (cmp x y) 0 then y # js_insert cmp x ys else x # y # ys)"

definition js_sort :: "('a \<Rightarrow> 'a \<Rightarrow> num) \<Rightarrow> 'a list \<Rightarrow> 'a list" where
  "js_sort cmp xs = foldr (js_insert cmp) xs []"

text \<open>A \<open>Set\<close>: its elements in insertion order.\<close>

definition set_add :: "'a list \<Rightarrow> 'a \<Rightarrow> 'a list" where
  "set_add s x = (if x \<in> set s then s else s @ [x])"

definition new_Set :: "'a list \<Rightarrow> 'a list" where
  "new_Set xs = fold (\<lambda>x s. set_add s x) xs []"

section \<open>Plain objects used as dictionaries\<close>

text \<open>
  The analyser counts in object literals \<open>{}\<close>. Such an object is its own properties in
  insertion order, on top of the properties every object inherits from
  \<open>Object.prototype\<close>: eleven functions, and the accessor \<open>__proto__\<close>, whose setter
  ignores a number. A read finds an own property, an inherited one, or \<open>undefined\<close>.
\<close>

type_synonym 'v obj = "(string \<times> 'v) list"

datatype 'v lookup = Undefined | Inherited | Own 'v

definition Object_prototype_keys :: "string list" where
  "Object_prototype_keys =
     [''constructor'', ''__defineGetter__'', ''__defineSetter__'', ''hasOwnProperty'',
      ''__lookupGetter__'', ''__lookupSetter__'', ''isPrototypeOf'',
      ''propertyIsEnumerable'', ''toString'', ''valueOf'', ''toLocaleString'']"

definition obj_get :: "'v obj \<Rightarrow> string \<Rightarrow> 'v lookup" where
  "obj_get obj k =
     (if k = ''__proto__'' then Inherited
      else (case map_of obj k of
              Some v \<Rightarrow> Own v
            | None \<Rightarrow> if k \<in> set Object_prototype_keys then Inherited else Undefined))"

definition obj_set :: "'v obj \<Rightarrow> string \<Rightarrow> 'v \<Rightarrow> 'v obj" where
  "obj_set obj k v = (if k = ''__proto__'' then obj else AList.update k v obj)"

text \<open>The property key of a field that may be \<open>undefined\<close>.\<close>

definition key_of :: "string option \<Rightarrow> string" where
  "key_of s = (case s of None \<Rightarrow> ''undefined'' | Some k \<Rightarrow> k)"

text \<open>
  \<open>!o[k]\<close> and the number that \<open>o[k]++\<close> reads: an inherited function or object is truthy
  and converts to \<open>NaN\<close>.
\<close>

definition falsy :: "num lookup \<Rightarrow> bool" where
  "falsy p = (case p of Undefined \<Rightarrow> True | Inherited \<Rightarrow> False
              | Own v \<Rightarrow> (case v of None \<Rightarrow> True | Some n \<Rightarrow> n = 0))"

definition to_number :: "num lookup \<Rightarrow> num" where
  "to_number p = (case p of Own v \<Rightarrow> v | Undefined \<Rightarrow> None | Inherited \<Rightarrow> None)"

text \<open>The counting idiom \<open>if (!o[k]) { o[k] = 0; } o[k]++;\<close>\<close>

definition count_key :: "string \<Rightarrow> num obj \<Rightarrow> num obj" where
  "count_key k obj =
     (let obj1 = (if falsy (obj_get obj k) then obj_set obj k (Some 0) else obj)
      in obj_set obj1 k (num_add (to_number (obj_get obj1 k)) (Some 1)))"

text \<open>
  \<open>Object.entries\<close>: the keys that are array indices first, in ascending numeric order,
  then the other keys in insertion order.
\<close>

definition is_array_index :: "string \<Rightarrow> bool" where
  "is_array_index k =
     (k \<noteq> [] \<and> list_all (is_radix_digit 10) k \<and> (k = ''0'' \<or> take 1 k \<noteq> ''0'')
      \<and> digits_value 10 k < 4294967295)"

definition Object_entries :: "'v obj \<Rightarrow> (string \<times> 'v) list" where
  "Object_entries obj =
     sort_key (\<lambda>p. digits_value 10 (fst p)) (filter (\<lambda>p. is_array_index (fst p)) obj)
     @ filter (\<lambda>p. \<not> is_array_index (fst p)) obj"


section \<open>Text and numbers of the statistics\<close>

text \<open>\<open>toLowerCase\<close>, and the classes \<open>\p{L}\<close>, \<open>\p{N}\<close> of the regular expression, on Latin-1.\<close>

definition to_lower :: "char \<Rightarrow> char" where
  "to_lower c =
     (let n = (of_char c :: nat)
      in if (65 \<le> n \<and> n \<le> 90) \<or> (192 \<le> n \<and> n \<le> 222 \<and> n \<noteq> 215) then char_of (n + 32) else c)"

definition is_letter_or_number :: "char \<Rightarrow> bool" where
  "is_letter_or_number c =
     (let n = (of_char c :: nat)
      in (48 \<le> n \<and> n \<le> 57) \<or> (65 \<le> n \<and> n \<le> 90) \<or> (97 \<le> n \<and> n \<le> 122)
         \<or> n \<in> {170, 178, 179, 181, 185, 186, 188, 189, 190}
         \<or> (192 \<le> n \<and> n \<le> 214) \<or> (216 \<le> n \<and> n \<le> 246) \<or> (248 \<le> n \<and> n \<le> 255))"

text \<open>
  \<open>s.split(/\s+/)\<close>: the pieces between the maximal runs of white space; a run at either
  end leaves an empty piece there, and the empty string is one empty piece.
\<close>

fun split_ws_from :: "bool \<Rightarrow> string \<Rightarrow> string \<Rightarrow> string list" where
  "split_ws_from in_run cur [] = [rev cur]"
| "split_ws_from in_run cur (c # cs) =
     (if is_space c
      then (if in_run then split_ws_from True cur cs else rev cur # split_ws_from True [] cs)
      else split_ws_from False (c # cur) cs)"

definition split_ws :: "string \<Rightarrow> string list" where
  "split_ws s = split_ws_from False [] s"

text \<open>
  \<open>message.toLowerCase().replace(/[^\p{L}\p{N}\s]/gu, '').split(/\s+/)\<close>, filtered to the
  words longer than \<open>n\<close>.
\<close>

definition clean :: "string \<Rightarrow> string" where
  "clean m = filter (\<lambda>c. is_letter_or_number c \<or> is_space c) (map to_lower m)"

definition tokens :: "nat \<Rightarrow> string \<Rightarrow> string list" where
  "tokens n m = filter (\<lambda>w. length w > n) (split_ws (clean m))"

text \<open>
  A quotient of two counts is a double: the rational nearest to the exact quotient among
  the doubles, ties to the even significand (normal range). \<open>toFixed(1)\<close> takes the
  decimal with one digit nearest to the double, the larger one on a tie, and
  \<open>parseFloat\<close> reads it back as a double.
\<close>

fun bit_len :: "nat \<Rightarrow> nat" where
  "bit_len n = (if n = 0 then 0 else Suc (bit_len (n div 2)))"

declare bit_len.simps [simp del]

definition ilog2 :: "rat \<Rightarrow> int" where
  "ilog2 a = (if a \<ge> 1 then int (bit_len (nat \<lfloor>a\<rfloor>)) - 1
              else - int (bit_len (nat (\<lceil>1 / a\<rceil> - 1))))"

definition pow2 :: "int \<Rightarrow> rat" where
  "pow2 e = (if e \<ge> 0 then 2 ^ nat e else 1 / 2 ^ nat (- e))"

definition round_half_even :: "rat \<Rightarrow> int" where
  "round_half_even x =
     (let f = \<lfloor>x\<rfloor>; r = x - of_int f
      in if r < 1 / 2 then f else if r > 1 / 2 then f + 1 else if even f then f else f + 1)"

definition double_of_rat :: "rat \<Rightarrow> rat" where
  "double_of_rat q =
     (if q = 0 then 0
      else (let a = \<bar>q\<bar>; u = pow2 (ilog2 a - 52)
            in sgn q * of_int (round_half_even (a / u)) * u))"

definition js_div :: "int \<Rightarrow> int \<Rightarrow> rat" where
  "js_div a b = double_of_rat (of_int a / of_int b)"

definition toFixed1 :: "rat \<Rightarrow> rat" where
  "toFixed1 x = (if x < 0 then - (of_int \<lfloor>10 * (- x) + 1 / 2\<rfloor> / 10)
                 else of_int \<lfloor>10 * x + 1 / 2\<rfloor> / 10)"

definition parseFloat_toFixed1 :: "rat \<Rightarrow> rat" where
  "parseFloat_toFixed1 x = double_of_rat (toFixed1 x)"

section \<open>calculateStats\<close>

subsection \<open>Senders\<close>

definition uniqueSenders :: "chat_row list \<Rightarrow> string option list" where
  "uniqueSenders data = new_Set (map sender data)"

definition messageCountBySender :: "chat_row list \<Rightarrow> int obj" where
  "messageCountBySender data =
     fold (\<lambda>s obj. obj_set obj (key_of s) (int (length (filter (\<lambda>row. sender row = s) data))))
       (uniqueSenders data) []"

definition wordCount :: "string option list \<Rightarrow> int" where
  "wordCount messages =
     foldl (\<lambda>total m. case m of None \<Rightarrow> total
              | Some t \<Rightarrow> if t = [] then total
                          else total + int (length (filter (\<lambda>word. length word > 0) (split_ws t))))
       0 messages"

definition wordCountBySender :: "chat_row list \<Rightarrow> int obj" where
  "wordCountBySender data =
     fold (\<lambda>s obj. obj_set obj (key_of s)
             (wordCount (map message (filter (\<lambda>row. sender row = s) data))))
       (uniqueSenders data) []"

record sender_stat =
  name :: "string option"
  messages :: "int lookup"
  words :: "int lookup"

definition senderData :: "chat_row list \<Rightarrow> sender_stat list" where
  "senderData data =
     map (\<lambda>s. \<lparr>name = s,
               messages = obj_get (messageCountBySender data) (key_of s),
               words = obj_get (wordCountBySender data) (key_of s)\<rparr>)
       (uniqueSenders data)"

subsection \<open>Weekdays\<close>

definition weekday_names :: "string list" where
  "weekday_names = [''Sunday'', ''Monday'', ''Tuesday'', ''Wednesday'', ''Thursday'',
                    ''Friday'', ''Saturday'']"

text \<open>
  One step of the loop over the rows: the pair is \<open>messagesByWeekday\<close> and
  \<open>daysByWeekday\<close>; \<open>hasOwnProperty\<close> looks at the own keys only.
\<close>

definition weekday_step ::
    "chat_row \<Rightarrow> int obj \<times> string option list obj \<Rightarrow> int obj \<times> string option list obj" where
  "weekday_step row acc =
     (let day = key_of (weekday row)
      in (case map_of (fst acc) day of
            None \<Rightarrow> acc
          | Some n \<Rightarrow>
              (AList.update day (n + 1) (fst acc),
               (case map_of (snd acc) day of
                  None \<Rightarrow> snd acc
                | Some s \<Rightarrow> AList.update day (set_add s (date row)) (snd acc)))))"

definition messagesByWeekday :: "chat_row list \<Rightarrow> int obj" where
  "messagesByWeekday data =
     fst (fold weekday_step data
            (map (\<lambda>d. (d, 0)) weekday_names, map (\<lambda>d. (d, [])) weekday_names))"

definition daysByWeekday :: "chat_row list \<Rightarrow> string option list obj" where
  "daysByWeekday data =
     snd (fold weekday_step data
            (map (\<lambda>d. (d, 0)) weekday_names, map (\<lambda>d. (d, [])) weekday_names))"

definition avgMessagesByWeekday :: "chat_row list \<Rightarrow> rat obj" where
  "avgMessagesByWeekday data =
     map (\<lambda>p. (fst p,
            (let daysCount = (case map_of (daysByWeekday data) (fst p) of
                                None \<Rightarrow> 0 | Some s \<Rightarrow> int (length s))
             in if daysCount > 0 then js_div (snd p) daysCount else 0)))
       (messagesByWeekday data)"

definition weekdayData :: "chat_row list \<Rightarrow> (string \<times> rat) list" where
  "weekdayData data =
     map (\<lambda>p. (fst p, parseFloat_toFixed1 (snd p))) (Object_entries (avgMessagesByWeekday data))"

subsection \<open>Days\<close>

definition messagesByDate :: "chat_row list \<Rightarrow> num obj" where
  "messagesByDate data = fold (\<lambda>row. count_key (key_of (date row))) data []"

text \<open>The \<open>sortDate\<close> of a bucket: \<open>new Date(year, month, day)\<close>, or \<open>new Date(0)\<close>.\<close>

definition sortDate :: "(int \<Rightarrow> int) \<Rightarrow> string \<Rightarrow> num" where
  "sortDate utc d =
     (let dateParts = split_on CHR ''/'' d
      in if length dateParts = 3
         then new_Date utc (parseInt10 (dateParts ! 2))
                (num_sub (parseInt10 (dateParts ! 1)) (Some 1))
                (parseInt10 (dateParts ! 0)) (Some 0) (Some 0)
         else TimeClip 0)"

text \<open>An entry of the daily timeline is \<open>(date, count, sortDate)\<close>.\<close>

definition dailyTimelineData :: "(int \<Rightarrow> int) \<Rightarrow> chat_row list \<Rightarrow> (string \<times> num \<times> num) list" where
  "dailyTimelineData utc data =
     (let sorted = js_sort (\<lambda>a b. num_sub (snd (snd a)) (snd (snd b)))
                     (map (\<lambda>p. (fst p, snd p, sortDate utc (fst p)))
                        (Object_entries (messagesByDate data)))
      in drop (length sorted - 30) sorted)"

subsection \<open>Words and phrases\<close>

definition wordCounts :: "chat_row list \<Rightarrow> num obj" where
  "wordCounts data =
     fold (\<lambda>row obj. case message row of None \<Rightarrow> obj
             | Some m \<Rightarrow> if m = [] then obj else fold count_key (tokens 2 m) obj)
       data []"

definition topWords :: "chat_row list \<Rightarrow> (string \<times> num) list" where
  "topWords data =
     take 30 (js_sort (\<lambda>a b. num_sub (snd b) (snd a)) (Object_entries (wordCounts data)))"

definition two_word_phrases :: "string list \<Rightarrow> string list" where
  "two_word_phrases ws = map (\<lambda>i. ws ! i @ '' '' @ ws ! (i + 1)) [0..<length ws - 1]"

definition three_word_phrases :: "string list \<Rightarrow> string list" where
  "three_word_phrases ws =
     map (\<lambda>i. ws ! i @ '' '' @ ws ! (i + 1) @ '' '' @ ws ! (i + 2)) [0..<length ws - 2]"

definition phraseCounts :: "chat_row list \<Rightarrow> num obj" where
  "phraseCounts data =
     fold (\<lambda>row obj. case message row of None \<Rightarrow> obj
             | Some m \<Rightarrow> if m = [] then obj
                 else (let ws = tokens 1 m
                       in fold count_key (three_word_phrases ws)
                            (fold count_key (two_word_phrases ws) obj)))
       data []"

definition topPhrases :: "chat_row list \<Rightarrow> (string \<times> num) list" where
  "topPhrases data =
     take 30 (js_sort (\<lambda>a b. num_sub (snd b) (snd a))
                (filter (\<lambda>p. num_ge (snd p) 3) (Object_entries (phraseCounts data))))"

subsection \<open>The bundle and the application state\<close>

text \<open>
  The bundle holds the five datasets that the properties below are about (the monthly
  timeline, the hourly histogram and the most active day are left out).
\<close>

record stats_bundle =
  stats_dailyTimelineData :: "(string \<times> num \<times> num) list"
  stats_weekdayData :: "(string \<times> rat) list"
  stats_senderData :: "sender_stat list"
  stats_topWords :: "(string \<times> num) list"
  stats_topPhrases :: "(string \<times> num) list"

record app_state =
  activeTab :: string
  chatData :: "chat_row list"
  stats :: "stats_bundle option"
  loading :: bool
  fileUploaded :: bool
  error :: string

definition calculateStats :: "(int \<Rightarrow> int) \<Rightarrow> chat_row list \<Rightarrow> app_state \<Rightarrow> app_state" where
  "calculateStats utc data st =
     (if data = [] then st
      else st\<lparr>stats := Some
             \<lparr>stats_dailyTimelineData = dailyTimelineData utc data,
              stats_weekdayData = weekdayData data,
              stats_senderData = senderData data,
              stats_topWords = topWords data,
              stats_topPhrases = topPhrases data\<rparr>\<rparr>)"

section \<open>handleFileUpload\<close>

text \<open>
  What the CSV library hands to the \<open>complete\<close> callback: the header fields and the rows
  (empty lines already skipped).
\<close>

record papa_results =
  meta_fields :: "string list"
  results_data :: "csv_row list"

definition requiredColumns :: "string list" where
  "requiredColumns = [''datetime'', ''date'', ''time'', ''hour'', ''weekday'', ''sender'',
                      ''message'']"

fun join :: "string \<Rightarrow> string list \<Rightarrow> string" where
  "join sep [] = []"
| "join sep [x] = x"
| "join sep (x # y # ys) = x @ sep @ join sep (y # ys)"

text \<open>
  The rows with their timestamps, sorted. \<open>clock i\<close> is the clock reading while row \<open>i\<close>
  is mapped.
\<close>

definition stamped :: "(nat \<Rightarrow> int) \<Rightarrow> (int \<Rightarrow> int) \<Rightarrow> csv_row list \<Rightarrow> chat_row list" where
  "stamped clock utc rows =
     map (\<lambda>p. with_datetime (resolve utc (clock (fst p)) (date (snd p)) (time (snd p))) (snd p))
       (enumerate 0 rows)"

definition parsedData :: "(nat \<Rightarrow> int) \<Rightarrow> (int \<Rightarrow> int) \<Rightarrow> csv_row list \<Rightarrow> chat_row list" where
  "parsedData clock utc rows =
     js_sort (\<lambda>a b. num_sub (datetime a) (datetime b)) (stamped clock utc rows)"

definition missingColumns :: "string list \<Rightarrow> string list" where
  "missingColumns headers = filter (\<lambda>col. col \<notin> set headers) requiredColumns"

definition on_complete ::
    "(nat \<Rightarrow> int) \<Rightarrow> (int \<Rightarrow> int) \<Rightarrow> papa_results \<Rightarrow> app_state \<Rightarrow> app_state" where
  "on_complete clock utc results st =
     (if length (missingColumns (meta_fields results)) > 0
      then st\<lparr>error := ''CSV is missing required columns: ''
                          @ join '', '' (missingColumns (meta_fields results)),
              loading := False\<rparr>
      else (calculateStats utc (parsedData clock utc (results_data results))
              (st\<lparr>chatData := parsedData clock utc (results_data results)\<rparr>))
             \<lparr>fileUploaded := True, loading := False, activeTab := ''chat''\<rparr>)"

text \<open>An upload of a CSV file whose read and parse complete.\<close>

definition handleFileUpload ::
    "(nat \<Rightarrow> int) \<Rightarrow> (int \<Rightarrow> int) \<Rightarrow> papa_results \<Rightarrow> app_state \<Rightarrow> app_state" where
  "handleFileUpload clock utc results st =
     on_complete clock utc results (st\<lparr>loading := True, error := []\<rparr>)"


section \<open>Initial state and sample rows\<close>

text \<open>The state the component starts in (the \<open>useState\<close> initial values).\<close>

definition initial_state :: app_state where
  "initial_state =
     \<lparr>activeTab = ''upload'', chatData = [], stats = None, loading = False,
      fileUploaded = False, error = []\<rparr>"

text \<open>A complete CSV row: date, time, hour, weekday, sender, message.\<close>

definition csv :: "string \<Rightarrow> string \<Rightarrow> string \<Rightarrow> string \<Rightarrow> string \<Rightarrow> string \<Rightarrow> csv_row" where
  "csv d t h w s m =
     \<lparr>date = Some d, time = Some t, hour = Some h, weekday = Some w, sender = Some s,
      message = Some m\<rparr>"


text \<open>Four messages on three Mondays, and one row with an unknown weekday.\<close>

definition sample_mondays :: "csv_row list" where
  "sample_mondays =
     [csv ''2/1/2023'' ''10:00'' ''10'' ''Monday'' ''ann'' ''a'',
      csv ''2/1/2023'' ''10:05'' ''10'' ''Monday'' ''bob'' ''b'',
      csv ''9/1/2023'' ''11:00'' ''11'' ''Monday'' ''ann'' ''c'',
      csv ''16/1/2023'' ''12:00'' ''12'' ''Monday'' ''bob'' ''d'',
      csv ''17/1/2023'' ''12:00'' ''12'' ''Tue'' ''bob'' ''e'']"



definition sample_invalid_date :: "csv_row list" where
  "sample_invalid_date =
     [csv ''2/1/2023'' ''10:00'' ''10'' ''Monday'' ''ann'' ''b'',
      csv ''a/b/c'' ''10:00'' ''10'' ''Monday'' ''ann'' ''x'',
      csv ''1/1/2023'' ''10:00'' ''10'' ''Sunday'' ''ann'' ''a'']"


text \<open>
  Normalised rows for the word, phrase and sender statistics (all of the 1st of January
  2023, 10:00 UTC).
\<close>

definition sample_spec_messages :: "chat_row list" where
  "sample_spec_messages =
     map (with_datetime (Some 1672567200000))
       [csv ''1/1/2023'' ''10:00'' ''10'' ''Sunday'' ''ann'' ''a bb ccc'',
        csv ''1/1/2023'' ''10:00'' ''10'' ''Sunday'' ''bob'' ''a bb ccc'']"

definition sample_constructor :: "chat_row list" where
  "sample_constructor =
     map (with_datetime (Some 1672567200000))
       [csv ''1/1/2023'' ''10:00'' ''10'' ''Sunday'' ''ann'' ''constructor'',
        csv ''1/1/2023'' ''10:00'' ''10'' ''Sunday'' ''bob'' ''bbb bbb'']"

definition sample_proto_sender :: "chat_row list" where
  "sample_proto_sender =
     map (with_datetime (Some 1672567200000))
       [csv ''1/1/2023'' ''10:00'' ''10'' ''Sunday'' ''__proto__'' ''hello there'',
        csv ''1/1/2023'' ''10:00'' ''10'' ''Sunday'' ''ann'' ''hi'']"


text \<open>
  Notions for reasoning about the counting tables: a key that no object inherits, the
  count a table holds for a key, and the phrases and words one row contributes.
\<close>

definition own_key :: "string \<Rightarrow> bool" where
  "own_key k = (k \<noteq> ''__proto__'' \<and> k \<notin> set Object_prototype_keys)"

definition counted :: "num obj \<Rightarrow> string \<Rightarrow> nat" where
  "counted obj k = (case map_of obj k of Some (Some n) \<Rightarrow> nat n | _ \<Rightarrow> 0)"

definition well_counted :: "num obj \<Rightarrow> string \<Rightarrow> bool" where
  "well_counted obj k = (case map_of obj k of None \<Rightarrow> True | Some None \<Rightarrow> False | Some (Some n) \<Rightarrow> n > 0)"

definition row_phrases :: "chat_row \<Rightarrow> string list" where
  "row_phrases row =
     (case message row of None \<Rightarrow> []
      | Some m \<Rightarrow> if m = [] then []
                  else two_word_phrases (tokens 1 m) @ three_word_phrases (tokens 1 m))"

definition row_words :: "chat_row \<Rightarrow> string list" where
  "row_words row =
     (case message row of None \<Rightarrow> [] | Some m \<Rightarrow> if m = [] then [] else tokens 2 m)"


section \<open>Properties of parseDate\<close>

lemma length_split_on: "length (split_on c s) = Suc (count_list s c)"
  by (induction s) (auto split: list.splits)

lemma parseDate_time_parts:
  assumes "parseDate (Some ds) ts = Some (Date_of y m d h mi)"
  shows "(h, mi) = (case ts of None \<Rightarrow> (Some 0, Some 0)
           | Some t \<Rightarrow> if t = [] then (Some 0, Some 0)
               else if length (split_on CHR '':'' t) \<ge> 2
                    then (parseInt10 (split_on CHR '':'' t ! 0), parseInt10 (split_on CHR '':'' t ! 1))
                    else (Some 0, Some 0))"
  using assms
  by (auto simp: parseDate_def Let_def split: if_splits option.splits prod.splits)

text \<open>
  Claim C3, as the code has it. A non-empty \<open>dateStr\<close> that contains neither separator, or
  whose split on the separator the code chooses (\<open>/\<close> when present, else \<open>-\<close>) does not
  give exactly three parts (the separator does not occur exactly twice), makes \<open>parseDate\<close>
  return the current time, whatever \<open>timeStr\<close> is. The empty and the missing \<open>dateStr\<close> are
  stopped by the guard before that: \<open>parseDate\<close> returns \<open>null\<close>, and the caller's
  \<open>new Date(null)\<close> is the epoch. In each case the row gets a valid time value.
\<close>

theorem parseDate_fallback_now:
  "(ds \<noteq> [] \<and> (if CHR ''/'' \<in> set ds then count_list ds CHR ''/'' \<noteq> 2
                      else count_list ds CHR ''-'' \<noteq> 2)
      \<longrightarrow> parseDate (Some ds) ts = Some Date_now \<and> resolve utc now (Some ds) ts = Some now)
   \<and> parseDate (Some []) ts = None \<and> parseDate None ts = None
   \<and> resolve utc now (Some []) ts = Some 0 \<and> resolve utc now None ts = Some 0"
  by (auto simp: parseDate_def resolve_def date_value_def str_includes_def length_split_on
        count_list_0_iff Let_def)

theorem parseDate_fallback_now_witness:
  "parseDate (Some ''yesterday'') (Some ''10:00'') = Some Date_now
   \<and> resolve id 1700000000000 (Some ''1/2'') None = Some 1700000000000"
  using parseDate_fallback_now [of "''yesterday''" "Some ''10:00''" id 1700000000000]
    parseDate_fallback_now [of "''1/2''" None id 1700000000000]
  by simp

text \<open>
  Claim C3 as stated includes the empty string among the inputs that give the current
  time. For the empty string \<open>parseDate\<close> returns \<open>null\<close>, and the row's timestamp is the
  epoch, not the clock reading.
\<close>

theorem parseDate_empty_not_now:
  "parseDate (Some []) (Some ''10:00'') = None
   \<and> resolve id 1700000000000 (Some []) (Some ''10:00'') = Some 0"
  by code_simp

text \<open>
  Claim C4. With a first component above 12 the two-digit year is passed on as it is:
  \<open>parseDate("20/05/23", "14:30")\<close> calls \<open>new Date(23, 4, 20, 14, 30)\<close>, which is the
  20th of May 1923 and not 2023. The addition of 2000 is made in the other branch only:
  \<open>parseDate("1/1/23", "")\<close> has year 2023.
\<close>

theorem parseDate_two_digit_year_after_day_above_12:
  "parseDate (Some ''20/05/23'') (Some ''14:30'')
     = Some (Date_of (Some 23) (Some 4) (Some 20) (Some 14) (Some 30))
   \<and> resolve id 0 (Some ''20/05/23'') (Some ''14:30'')
     = resolve id 0 (Some ''20/05/1923'') (Some ''14:30'')
   \<and> resolve id 0 (Some ''20/05/23'') (Some ''14:30'')
     \<noteq> resolve id 0 (Some ''20/05/2023'') (Some ''14:30'')
   \<and> parseDate (Some ''1/1/23'') (Some [])
     = Some (Date_of (Some 2023) (Some 0) (Some 1) (Some 0) (Some 0))"
  by code_simp

text \<open>
  The year of an accepted date, for every input: two thousand is added to a year below
  100 only when the first component is not above 12.
\<close>

lemma parseDate_year:
  assumes "parseDate (Some ds) ts = Some (Date_of y m d h mi)"
    and "dateParts = (if CHR ''/'' \<in> set ds then split_on CHR ''/'' ds else split_on CHR ''-'' ds)"
  shows "y = (if num_gt (parseInt (dateParts ! 0)) 12 then parseInt10 (dateParts ! 2)
              else if num_lt (parseInt10 (dateParts ! 2)) 100
                   then num_add (parseInt10 (dateParts ! 2)) (Some 2000)
                   else parseInt10 (dateParts ! 2))"
  using assms
  by (auto simp: parseDate_def str_includes_def Let_def split: if_splits option.splits prod.splits)


text \<open>
  Claim C5, as the code has it. For a date that \<open>parseDate\<close> accepts: a missing
  \<open>timeStr\<close>, or one without a colon (the empty string among them), gives hours 0 and
  minutes 0; a \<open>timeStr\<close> with two or more parts gives \<open>parseInt\<close> of the first two parts,
  whatever the parts after them are. (\<open>parseInt\<close> of a part without a leading integer is
  \<open>NaN\<close>.)
\<close>

theorem parseDate_time:
  assumes "parseDate (Some ds) ts = Some (Date_of y m d h mi)"
  shows "((ts = None \<or> (\<exists>t. ts = Some t \<and> CHR '':'' \<notin> set t)) \<longrightarrow> h = Some 0 \<and> mi = Some 0)
    \<and> (\<forall>t a b rest. ts = Some t \<and> split_on CHR '':'' t = a # b # rest
          \<longrightarrow> h = parseInt10 a \<and> mi = parseInt10 b)"
proof (intro conjI impI allI)
  assume "ts = None \<or> (\<exists>t. ts = Some t \<and> CHR '':'' \<notin> set t)"
  then show "h = Some 0" "mi = Some 0"
    using parseDate_time_parts [OF assms]
    by (auto simp: length_split_on count_list_0_iff [symmetric] split: if_splits)
next
  fix t a b rest
  assume a: "ts = Some t \<and> split_on CHR '':'' t = a # b # rest"
  then have "t \<noteq> []" by auto
  with a show "h = parseInt10 a" "mi = parseInt10 b"
    using parseDate_time_parts [OF assms] by auto
qed

theorem parseDate_time_witness:
  "parseDate (Some ''05/05/2023'') (Some ''09:05:59'')
     = Some (Date_of (Some 2023) (Some 4) (Some 5) (Some 9) (Some 5))
   \<and> parseDate (Some ''05/05/2023'') (Some ''0905'')
     = Some (Date_of (Some 2023) (Some 4) (Some 5) (Some 0) (Some 0))"
proof -
  have a: "parseDate (Some ''05/05/2023'') (Some ''09:05:59'')
      = Some (Date_of (Some 2023) (Some 4) (Some 5) (parseInt10 ''09'') (parseInt10 ''05''))"
    by code_simp
  have b: "parseDate (Some ''05/05/2023'') (Some ''0905'')
      = Some (Date_of (Some 2023) (Some 4) (Some 5) (Some 0) (Some 0))"
    by code_simp
  have c: "parseInt10 ''09'' = Some 9" "parseInt10 ''05'' = Some 5"
    by code_simp+
  from parseDate_time [OF a] parseDate_time [OF b] c show ?thesis
    using a b by simp
qed

text \<open>
  Claim C5 as stated gives hours 0 and minutes 0 for non-numeric parts too. The code
  passes \<open>NaN\<close> on, and the date is invalid.
\<close>

theorem parseDate_time_not_numeric:
  "parseDate (Some ''1/1/2023'') (Some ''ab:cd'')
     = Some (Date_of (Some 2023) (Some 0) (Some 1) None None)
   \<and> resolve id 0 (Some ''1/1/2023'') (Some ''ab:cd'') = None"
  by code_simp


section \<open>Properties of the upload\<close>

lemma set_missingColumns: "set (missingColumns hs) = set requiredColumns - set hs"
  by (auto simp: missingColumns_def)

lemma distinct_missingColumns: "distinct (missingColumns hs)"
  by (simp add: missingColumns_def requiredColumns_def)

lemma missingColumns_Nil: "set requiredColumns \<subseteq> set hs \<Longrightarrow> missingColumns hs = []"
  by (auto simp: missingColumns_def filter_empty_conv)

lemma split_on_no_sep: "c \<notin> set x \<Longrightarrow> split_on c x = [x]"
  by (induction x) auto

lemma split_on_append_sep: "c \<notin> set x \<Longrightarrow> split_on c (x @ c # rest) = x # split_on c rest"
  by (induction x) auto

lemma split_on_join:
  "\<forall>x \<in> set xs. CHR '','' \<notin> set x \<Longrightarrow> xs \<noteq> [] \<Longrightarrow>
     map (dropWhile is_space) (split_on CHR '','' (join '', '' xs)) = map (dropWhile is_space) xs"
proof (induction "'', ''" xs rule: join.induct)
  case 1
  then show ?case by simp
next
  case (2 x)
  then show ?case by (simp add: split_on_no_sep)
next
  case (3 x y ys)
  have sp: "is_space CHR '' ''" by (simp add: is_space_def)
  have "split_on CHR '','' (join '', '' (y # ys)) \<noteq> []"
    by (metis length_split_on list.size(3) nat.distinct(1))
  then obtain p ps where p: "split_on CHR '','' (join '', '' (y # ys)) = p # ps"
    by (cases "split_on CHR '','' (join '', '' (y # ys))") auto
  have "split_on CHR '','' (x @ '', '' @ join '', '' (y # ys))
      = x # (CHR '' '' # p) # ps"
    using 3(2) split_on_append_sep [of "CHR '',''" x "CHR '' '' # join '', '' (y # ys)"]
    by (simp add: p)
  moreover have "map (dropWhile is_space) (p # ps) = map (dropWhile is_space) (y # ys)"
    using 3 p by simp
  ultimately show ?case
    using sp by simp
qed

lemma required_names_plain:
  "\<forall>x \<in> set requiredColumns. CHR '','' \<notin> set x \<and> dropWhile is_space x = x"
  by (simp add: requiredColumns_def is_space_def)

lemma message_names:
  assumes "missingColumns hs \<noteq> []"
  shows "map (dropWhile is_space) (split_on CHR '','' (join '', '' (missingColumns hs)))
           = missingColumns hs"
proof -
  have sub: "set (missingColumns hs) \<subseteq> set requiredColumns"
    by (auto simp: missingColumns_def)
  then have "\<forall>x \<in> set (missingColumns hs). CHR '','' \<notin> set x"
    using required_names_plain by blast
  from split_on_join [OF this assms]
  have "map (dropWhile is_space) (split_on CHR '','' (join '', '' (missingColumns hs)))
      = map (dropWhile is_space) (missingColumns hs)" .
  also have "\<dots> = missingColumns hs"
    using sub required_names_plain by (simp add: map_idI subset_iff)
  finally show ?thesis .
qed

text \<open>
  Claim C2. When the header lacks a required column, the upload ends with the error
  message made of the fixed prefix and the missing columns separated by a comma and a
  blank: the items of the message after the prefix are, in order, exactly the required
  columns absent from the header, each once. \<open>chatData\<close> and \<open>stats\<close> are what they were,
  and so is everything else in the state except \<open>error\<close> and \<open>loading\<close>.
\<close>

theorem missing_columns_rejected:
  assumes "\<not> set requiredColumns \<subseteq> set (meta_fields results)"
  shows "handleFileUpload clock utc results st
           = st\<lparr>error := ''CSV is missing required columns: ''
                            @ join '', '' (missingColumns (meta_fields results)),
                loading := False\<rparr>
         \<and> map (dropWhile is_space)
             (split_on CHR '',''
                (drop (length ''CSV is missing required columns: '')
                   (error (handleFileUpload clock utc results st))))
             = missingColumns (meta_fields results)
         \<and> take (length ''CSV is missing required columns: '')
              (error (handleFileUpload clock utc results st))
             = ''CSV is missing required columns: ''
         \<and> set (missingColumns (meta_fields results))
             = set requiredColumns - set (meta_fields results)
         \<and> distinct (missingColumns (meta_fields results))
         \<and> chatData (handleFileUpload clock utc results st) = chatData st
         \<and> stats (handleFileUpload clock utc results st) = stats st"
proof -
  have ne: "missingColumns (meta_fields results) \<noteq> []"
    using assms set_missingColumns [of "meta_fields results"] by auto
  then have e: "handleFileUpload clock utc results st
           = st\<lparr>error := ''CSV is missing required columns: ''
                            @ join '', '' (missingColumns (meta_fields results)),
                loading := False\<rparr>"
    by (simp add: handleFileUpload_def on_complete_def)
  show ?thesis
    unfolding e using message_names [OF ne]
    by (simp add: set_missingColumns distinct_missingColumns)
qed

theorem missing_columns_rejected_witness:
  "handleFileUpload int id
      \<lparr>meta_fields = [''date'', ''time'', ''sender'', ''message''],
       results_data = [csv ''1/1/2023'' ''10:00'' ''10'' ''Sunday'' ''ann'' ''hello'']\<rparr>
      initial_state
   = \<lparr>activeTab = ''upload'', chatData = [], stats = None, loading = False,
      fileUploaded = False,
      error = ''CSV is missing required columns: datetime, hour, weekday''\<rparr>"
proof -
  let ?r = "\<lparr>meta_fields = [''date'', ''time'', ''sender'', ''message''],
             results_data = [csv ''1/1/2023'' ''10:00'' ''10'' ''Sunday'' ''ann'' ''hello'']\<rparr>"
  have m: "missingColumns [''date'', ''time'', ''sender'', ''message'']
             = [''datetime'', ''hour'', ''weekday'']"
    by code_simp
  have h: "\<not> set requiredColumns \<subseteq> set (meta_fields ?r)"
    by (simp add: requiredColumns_def)
  show ?thesis
    using missing_columns_rejected [OF h, of int id initial_state]
    by (simp add: m initial_state_def)
qed

lemma js_insert_key:
  "f x \<noteq> None \<Longrightarrow> \<forall>y \<in> set ys. f y \<noteq> None \<Longrightarrow>
     js_insert (\<lambda>a b. num_sub (f a) (f b)) x ys = insort_key (\<lambda>y. the (f y)) x ys"
  by (induction ys) (auto simp: num_sub_def num_gt_def)

lemma js_sort_key:
  "\<forall>y \<in> set xs. f y \<noteq> None \<Longrightarrow>
     js_sort (\<lambda>a b. num_sub (f a) (f b)) xs = sort_key (\<lambda>y. the (f y)) xs"
proof (induction xs)
  case Nil
  then show ?case by (simp add: js_sort_def)
next
  case (Cons x xs)
  then have "js_sort (\<lambda>a b. num_sub (f a) (f b)) xs = sort_key (\<lambda>y. the (f y)) xs"
    by simp
  moreover have "\<forall>y \<in> set (sort_key (\<lambda>y. the (f y)) xs). f y \<noteq> None"
    using Cons.prems by simp
  ultimately show ?case
    using Cons.prems js_insert_key [of f x "sort_key (\<lambda>y. the (f y)) xs"]
    by (simp add: js_sort_def sort_key_def)
qed

lemma sorted_wrt_num_le:
  assumes "\<forall>y \<in> set xs. f y \<noteq> None" and "sorted (map (\<lambda>y. the (f y)) xs)"
  shows "sorted_wrt num_le (map f xs)"
proof -
  have "sorted_wrt (\<lambda>a b. the (f a) \<le> the (f b)) xs"
    using assms(2) by (simp add: sorted_map)
  moreover have "num_le (f a) (f b)"
    if ab: "a \<in> set xs" "b \<in> set xs" "the (f a) \<le> the (f b)" for a b
  proof -
    from assms(1) ab(1) obtain x where "f a = Some x" by blast
    moreover from assms(1) ab(2) obtain y where "f b = Some y" by blast
    ultimately show ?thesis using ab by (simp add: num_le_def)
  qed
  ultimately have "sorted_wrt (\<lambda>a b. num_le (f a) (f b)) xs"
    by (rule sorted_wrt_mono_rel [rotated])
  then show ?thesis by (simp add: sorted_wrt_map)
qed

lemma length_stamped: "length (stamped clock utc rows) = length rows"
  by (simp add: stamped_def)

lemma filter_key_the:
  "\<forall>y \<in> set xs. f y \<noteq> None \<Longrightarrow>
     filter (\<lambda>y. f y = Some k) xs = filter (\<lambda>y. the (f y) = k) xs"
  by (rule filter_cong) auto

text \<open>
  Claim C1, as the code has it. When the header has the seven required columns and
  every row resolves to a valid timestamp (none is an invalid date), the dataset
  installed by the upload is sorted non-decreasing by timestamp, has one row for each
  row the CSV library delivered, holds exactly those rows with their timestamps, and
  keeps rows of equal timestamp in their original order.
\<close>

theorem upload_sorted_stable:
  assumes cols: "set requiredColumns \<subseteq> set (meta_fields results)"
    and valid: "\<forall>r \<in> set (stamped clock utc (results_data results)). datetime r \<noteq> None"
  shows "chatData (handleFileUpload clock utc results st)
           = parsedData clock utc (results_data results)
    \<and> sorted_wrt num_le (map datetime (parsedData clock utc (results_data results)))
    \<and> length (parsedData clock utc (results_data results)) = length (results_data results)
    \<and> mset (parsedData clock utc (results_data results))
        = mset (stamped clock utc (results_data results))
    \<and> (\<forall>t. filter (\<lambda>r. datetime r = t) (parsedData clock utc (results_data results))
            = filter (\<lambda>r. datetime r = t) (stamped clock utc (results_data results)))"
proof -
  let ?xs = "stamped clock utc (results_data results)"
  let ?k = "\<lambda>r::chat_row. the (datetime r)"
  have eq: "parsedData clock utc (results_data results) = sort_key ?k ?xs"
    unfolding parsedData_def using valid by (rule js_sort_key)
  have 1: "chatData (handleFileUpload clock utc results st)
             = parsedData clock utc (results_data results)"
    by (simp add: handleFileUpload_def on_complete_def missingColumns_Nil [OF cols]
          calculateStats_def)
  have v': "\<forall>r \<in> set (sort_key ?k ?xs). datetime r \<noteq> None"
    using valid by simp
  have 2: "sorted_wrt num_le (map datetime (sort_key ?k ?xs))"
    using v' by (rule sorted_wrt_num_le) simp
  have 3: "length (sort_key ?k ?xs) = length (results_data results)"
    by (simp add: length_stamped)
  have 4: "mset (sort_key ?k ?xs) = mset ?xs"
    by simp
  have 5: "filter (\<lambda>r. datetime r = t) (sort_key ?k ?xs) = filter (\<lambda>r. datetime r = t) ?xs"
    for t
  proof (cases t)
    case None
    then show ?thesis
      using valid v' by (simp add: filter_empty_conv del: set_sort)
  next
    case (Some k)
    then show ?thesis
      using filter_key_the [OF valid, of k] filter_key_the [OF v', of k]
        sort_key_stable [of ?k k ?xs]
      by simp
  qed
  show ?thesis
    using 1 2 3 4 5 by (simp add: eq)
qed


theorem upload_sorted_stable_witness:
  "map message (chatData (handleFileUpload int id
      \<lparr>meta_fields = requiredColumns,
       results_data = [csv ''2/1/2023'' ''10:00'' ''10'' ''Monday'' ''ann'' ''third'',
                       csv ''1/1/2023'' ''09:30'' ''9'' ''Sunday'' ''bob'' ''first'',
                       csv ''1/1/2023'' ''09:30:40'' ''9'' ''Sunday'' ''ann'' ''second'']\<rparr>
      initial_state))
   = [Some ''first'', Some ''second'', Some ''third'']"
proof -
  let ?rows = "[csv ''2/1/2023'' ''10:00'' ''10'' ''Monday'' ''ann'' ''third'',
                csv ''1/1/2023'' ''09:30'' ''9'' ''Sunday'' ''bob'' ''first'',
                csv ''1/1/2023'' ''09:30:40'' ''9'' ''Sunday'' ''ann'' ''second'']"
  let ?r = "\<lparr>meta_fields = requiredColumns, results_data = ?rows\<rparr>"
  have st: "stamped int id ?rows =
     [with_datetime (Some 1672653600000)
        (csv ''2/1/2023'' ''10:00'' ''10'' ''Monday'' ''ann'' ''third''),
      with_datetime (Some 1672565400000)
        (csv ''1/1/2023'' ''09:30'' ''9'' ''Sunday'' ''bob'' ''first''),
      with_datetime (Some 1672565400000)
        (csv ''1/1/2023'' ''09:30:40'' ''9'' ''Sunday'' ''ann'' ''second'')]"
    by code_simp
  have c: "set requiredColumns \<subseteq> set (meta_fields ?r)"
    by simp
  have v: "\<forall>r \<in> set (stamped int id (results_data ?r)). datetime r \<noteq> None"
    by (simp add: st with_datetime_def)
  have "parsedData int id ?rows =
     [with_datetime (Some 1672565400000)
        (csv ''1/1/2023'' ''09:30'' ''9'' ''Sunday'' ''bob'' ''first''),
      with_datetime (Some 1672565400000)
        (csv ''1/1/2023'' ''09:30:40'' ''9'' ''Sunday'' ''ann'' ''second''),
      with_datetime (Some 1672653600000)
        (csv ''2/1/2023'' ''10:00'' ''10'' ''Monday'' ''ann'' ''third'')]"
    by (simp add: parsedData_def st js_sort_def with_datetime_def num_sub_def num_gt_def)
  with upload_sorted_stable [OF c v, of initial_state] show ?thesis
    by (simp add: with_datetime_def csv_def)
qed

text \<open>
  Claim C1 as stated covers every table with the required columns. A row whose date has
  three parts that are not numbers gets an invalid date: its time value is \<open>NaN\<close>, the
  comparator returns \<open>NaN\<close> for it, and the installed dataset, which holds that row, is
  not sorted non-decreasing by timestamp.
\<close>

theorem upload_not_sorted_with_invalid_date:
  "resolve id 0 (Some ''a/b/c'') (Some ''10:00'') = None
   \<and> None \<in> set (map datetime (chatData (handleFileUpload int id
       \<lparr>meta_fields = requiredColumns, results_data = sample_invalid_date\<rparr> initial_state)))
   \<and> \<not> sorted_wrt num_le (map datetime (chatData (handleFileUpload int id
       \<lparr>meta_fields = requiredColumns, results_data = sample_invalid_date\<rparr> initial_state)))"
proof -
  have r: "resolve id 0 (Some ''a/b/c'') (Some ''10:00'') = None"
    by code_simp
  have d: "chatData (handleFileUpload int id
       \<lparr>meta_fields = requiredColumns, results_data = sample_invalid_date\<rparr> initial_state)
     = [with_datetime (Some 1672653600000)
          (csv ''2/1/2023'' ''10:00'' ''10'' ''Monday'' ''ann'' ''b''),
        with_datetime None (csv ''a/b/c'' ''10:00'' ''10'' ''Monday'' ''ann'' ''x''),
        with_datetime (Some 1672567200000)
          (csv ''1/1/2023'' ''10:00'' ''10'' ''Sunday'' ''ann'' ''a'')]"
    unfolding sample_invalid_date_def initial_state_def by code_simp
  show ?thesis
    unfolding d by (simp add: r with_datetime_def csv_def num_le_def)
qed

section \<open>Properties of calculateStats\<close>

text \<open>
  Claim C6, as the code has it. On an empty row sequence \<open>calculateStats\<close> returns at
  its guard without an error and without building a bundle: when there is no bundle yet
  (\<open>stats\<close> is \<open>null\<close>, as in the initial state), the state is what it was and the bundle
  stays absent. From such a state a bundle is present afterwards exactly when the
  sequence has a row.
\<close>

theorem calculateStats_empty:
  "stats st = None \<longrightarrow>
     calculateStats utc [] st = st
     \<and> (stats (calculateStats utc data st) = None \<longleftrightarrow> data = [])"
  by (simp add: calculateStats_def)

theorem calculateStats_empty_witness:
  "calculateStats id [] initial_state = initial_state
   \<and> stats (calculateStats id
        [with_datetime (Some 0) (csv ''1/1/1970'' ''00:00'' ''0'' ''Thursday'' ''ann'' ''hi'')]
        initial_state) \<noteq> None"
  using calculateStats_empty [of initial_state id
      "[with_datetime (Some 0) (csv ''1/1/1970'' ''00:00'' ''0'' ''Thursday'' ''ann'' ''hi'')]"]
  by (simp add: initial_state_def)

text \<open>
  Claim C6 as stated promises an empty, zeroed bundle. From the initial state, where
  \<open>stats\<close> is \<open>null\<close>, it stays \<open>null\<close>, also through a whole upload of a table without
  rows.
\<close>

theorem calculateStats_empty_no_bundle:
  "stats (calculateStats id [] initial_state) = None
   \<and> stats (handleFileUpload int id \<lparr>meta_fields = requiredColumns, results_data = []\<rparr>
        initial_state) = None"
  by (simp add: calculateStats_def handleFileUpload_def on_complete_def missingColumns_def
        parsedData_def stamped_def js_sort_def enumerate_eq_zip initial_state_def)



subsection \<open>Weekday averages\<close>

lemma weekday_step_keys:
  "map fst (fst (weekday_step r acc)) = map fst (fst acc) \<and> map fst (snd (weekday_step r acc)) = map fst (snd acc)"
  by (auto simp: weekday_step_def Let_def update_keys dom_map_of_conv_image_fst [symmetric] split: option.splits)

lemma fold_weekday_step_keys:
  "map fst (fst (fold weekday_step xs acc)) = map fst (fst acc) \<and> map fst (snd (fold weekday_step xs acc)) = map fst (snd acc)"
  by (induction xs arbitrary: acc) (simp_all add: weekday_step_keys)

lemma weekday_step_fst:
  "map_of (fst (weekday_step r acc)) d = 
     (if key_of (weekday r) = d then map_option (\<lambda>n. n + 1) (map_of (fst acc) d) else map_of (fst acc) d)"
  by (auto simp: weekday_step_def Let_def update_conv' split: option.splits)

lemma weekday_step_snd:
  "map fst (fst acc) = map fst (snd acc) \<Longrightarrow> map_of (snd (weekday_step r acc)) d = 
     (if key_of (weekday r) = d then map_option (\<lambda>s. set_add s (date r)) (map_of (snd acc) d) else map_of (snd acc) d)"
  apply (auto simp: weekday_step_def Let_def update_conv' split: option.splits)
   apply (metis map_of_eq_None_iff option.distinct(1) set_map)+
  done

lemma fold_weekday_step_fst:
  "map_of (fst (fold weekday_step xs acc)) d = 
     map_option (\<lambda>n. n + int (length (filter (\<lambda>r. key_of (weekday r) = d) xs))) (map_of (fst acc) d)"
  by (induction xs arbitrary: acc) (auto simp: weekday_step_fst option.map_comp o_def option.map_ident add.assoc)

lemma fold_weekday_step_snd:
  "map fst (fst acc) = map fst (snd acc) \<Longrightarrow> map_of (snd (fold weekday_step xs acc)) d = 
     map_option (\<lambda>s. fold (\<lambda>r s. set_add s (date r)) (filter (\<lambda>r. key_of (weekday r) = d) xs) s) (map_of (snd acc) d)"
proof (induction xs arbitrary: acc)
  case Nil
  then show ?case by (simp add: option.map_ident)
next
  case (Cons x xs)
  have "map fst (fst (weekday_step x acc)) = map fst (snd (weekday_step x acc))"
    using Cons.prems by (simp add: weekday_step_keys)
  from Cons.IH[OF this] show ?case
    using Cons.prems by (auto simp: weekday_step_snd option.map_comp o_def)
qed

lemma fold_set_add:
  "distinct s \<Longrightarrow> distinct (fold (\<lambda>r s. set_add s (f r)) xs s) \<and> set (fold (\<lambda>r s. set_add s (f r)) xs s) = set s \<union> f ` set xs"
  by (induction xs arbitrary: s) (auto simp: set_add_def)

lemma length_fold_set_add:
  "length (fold (\<lambda>r s. set_add s (f r)) xs []) = card (f ` set xs)"
  using fold_set_add[of "[]" f xs] by (metis distinct_card distinct.simps(1) empty_set sup_bot_left)


lemma keys_messagesByWeekday: "map fst (messagesByWeekday data) = weekday_names"
  by (simp add: messagesByWeekday_def fold_weekday_step_keys o_def)

lemma keys_daysByWeekday: "map fst (daysByWeekday data) = weekday_names"
  by (simp add: daysByWeekday_def fold_weekday_step_keys o_def)

lemma map_of_const_keys: "k \<in> set ks \<Longrightarrow> map_of (map (\<lambda>d. (d, c)) ks) k = Some c"
  by (induction ks) auto

lemma key_of_weekday_name:
  "d \<in> set weekday_names \<Longrightarrow> key_of w = d \<longleftrightarrow> w = Some d"
  by (cases w) (auto simp: key_of_def weekday_names_def)

lemma map_of_messagesByWeekday:
  assumes "d \<in> set weekday_names"
  shows "map_of (messagesByWeekday data) d = Some (int (length (filter (\<lambda>r. weekday r = Some d) data)))"
  using assms
  by (simp add: messagesByWeekday_def fold_weekday_step_fst map_of_const_keys key_of_weekday_name)

lemma map_of_daysByWeekday:
  assumes "d \<in> set weekday_names"
  shows "\<exists>s. map_of (daysByWeekday data) d = Some s \<and> length s = card (date ` {r \<in> set data. weekday r = Some d})"
proof -
  have "{r \<in> set data. weekday r = Some d} = set (filter (\<lambda>r. weekday r = Some d) data)" by auto
  then show ?thesis using assms
    by (simp add: daysByWeekday_def fold_weekday_step_snd map_of_const_keys key_of_weekday_name o_def length_fold_set_add)
qed

lemma map_of_map_keyed:
  "map_of (map (\<lambda>p. (fst p, g p)) al) k = (case map_of al k of None \<Rightarrow> None | Some v \<Rightarrow> Some (g (k, v)))"
  by (induction al) auto

lemma Object_entries_no_index:
  "\<forall>p \<in> set obj. \<not> is_array_index (fst p) \<Longrightarrow> Object_entries obj = obj"
  by (simp add: Object_entries_def filter_empty_conv filter_id_conv)

lemma weekday_names_not_index: "d \<in> set weekday_names \<Longrightarrow> \<not> is_array_index d"
  by (auto simp: weekday_names_def is_array_index_def is_radix_digit_def digit_val_def)

lemma keys_avgMessagesByWeekday: "map fst (avgMessagesByWeekday data) = weekday_names"
  by (simp add: avgMessagesByWeekday_def o_def keys_messagesByWeekday)

lemma entries_avgMessagesByWeekday: "Object_entries (avgMessagesByWeekday data) = avgMessagesByWeekday data"
proof (rule Object_entries_no_index)
  show "\<forall>p\<in>set (avgMessagesByWeekday data). \<not> is_array_index (fst p)"
    using keys_avgMessagesByWeekday[of data] weekday_names_not_index
    by (metis image_eqI set_map)
qed

lemma weekday_step_other:
  "key_of (weekday r) \<notin> set (map fst (fst acc)) \<Longrightarrow> weekday_step r acc = acc"
proof -
  assume "key_of (weekday r) \<notin> set (map fst (fst acc))"
  then have "map_of (fst acc) (key_of (weekday r)) = None"
    by (simp add: map_of_eq_None_iff)
  then show ?thesis by (simp add: weekday_step_def)
qed

lemma fold_weekday_step_filter:
  "fold weekday_step (filter (\<lambda>r. key_of (weekday r) \<in> set (map fst (fst acc))) xs) acc = fold weekday_step xs acc"
proof (induction xs arbitrary: acc)
  case Nil show ?case by simp
next
  case (Cons x xs)
  show ?case using Cons.IH[of "weekday_step x acc"] Cons.IH[of acc] 
    by (simp add: weekday_step_other weekday_step_keys del: set_map)
qed



lemma weekday_in_names: "key_of w \<in> set weekday_names \<longleftrightarrow> w \<in> Some ` set weekday_names"
  by (cases w) (auto simp: key_of_def weekday_names_def)

text \<open>
  Claim C7, as the code has it. The weekday dataset has the seven names in order. For
  each of them the reported average is 0 when no date was seen for that weekday, and
  otherwise the quotient of the number of rows with that weekday by the number of
  distinct raw dates of those rows, rounded to one decimal by \<open>toFixed(1)\<close>. Rows whose
  weekday is not one of the seven names do not change the dataset; they are left out of
  this metric only: the sender of every row is in the sender statistics.
\<close>

theorem weekdayData_average:
  "map fst (weekdayData data) = weekday_names
   \<and> (\<forall>d \<in> set weekday_names.
        map_of (weekdayData data) d
          = Some (if card (date ` {r \<in> set data. weekday r = Some d}) > 0
                  then parseFloat_toFixed1
                         (js_div (int (length (filter (\<lambda>r. weekday r = Some d) data)))
                            (int (card (date ` {r \<in> set data. weekday r = Some d}))))
                  else 0))
   \<and> weekdayData (filter (\<lambda>r. weekday r \<in> Some ` set weekday_names) data) = weekdayData data
   \<and> set (map name (senderData data)) = sender ` set data"
proof (intro conjI ballI)
  show "map fst (weekdayData data) = weekday_names"
    by (simp add: weekdayData_def entries_avgMessagesByWeekday o_def keys_avgMessagesByWeekday [unfolded o_def])
next
  fix d
  assume d: "d \<in> set weekday_names"
  define n where "n = card (date ` {r \<in> set data. weekday r = Some d})"
  define total where "total = int (length (filter (\<lambda>r. weekday r = Some d) data))"
  obtain s where s: "map_of (daysByWeekday data) d = Some s" "length s = n"
    using map_of_daysByWeekday [OF d] unfolding n_def by blast
  have z: "parseFloat_toFixed1 0 = 0"
    by code_simp
  have a: "map_of (avgMessagesByWeekday data) d
      = Some (if int (length s) > 0 then js_div total (int (length s)) else 0)"
    unfolding total_def
    by (simp add: avgMessagesByWeekday_def map_of_map_keyed map_of_messagesByWeekday [OF d] s(1))
  have "map_of (weekdayData data) d
     = Some (if n > 0 then parseFloat_toFixed1 (js_div total (int n)) else 0)"
    unfolding weekdayData_def entries_avgMessagesByWeekday map_of_map_keyed a
    by (simp add: s(2) z)
  then show "map_of (weekdayData data) d
          = Some (if card (date ` {r \<in> set data. weekday r = Some d}) > 0
                  then parseFloat_toFixed1
                         (js_div (int (length (filter (\<lambda>r. weekday r = Some d) data)))
                            (int (card (date ` {r \<in> set data. weekday r = Some d}))))
                  else 0)"
    unfolding n_def total_def .
next
  let ?acc = "(map (\<lambda>d. (d, 0::int)) weekday_names,
               map (\<lambda>d. (d, []::string option list)) weekday_names)"
  have "map fst (fst ?acc) = weekday_names"
    by (simp add: o_def)
  with fold_weekday_step_filter [of ?acc data]
  have "fold weekday_step (filter (\<lambda>r. weekday r \<in> Some ` set weekday_names) data) ?acc
          = fold weekday_step data ?acc"
    by (simp add: weekday_in_names)
  then show "weekdayData (filter (\<lambda>r. weekday r \<in> Some ` set weekday_names) data) = weekdayData data"
    by (simp add: weekdayData_def avgMessagesByWeekday_def messagesByWeekday_def
          daysByWeekday_def)
next
  show "set (map name (senderData data)) = sender ` set data"
    using fold_set_add [of "[]" "\<lambda>x. x" "map sender data"]
    by (simp add: senderData_def o_def uniqueSenders_def new_Set_def)
qed


theorem weekdayData_average_witness:
  "map_of (weekdayData (parsedData int id sample_mondays)) ''Monday''
     = Some (parseFloat_toFixed1 (js_div 4 3))
   \<and> map_of (weekdayData (parsedData int id sample_mondays)) ''Friday'' = Some 0"
proof -
  let ?rows = "parsedData int id sample_mondays"
  have L: "?rows = map (\<lambda>(t, r). with_datetime (Some t) r)
      [(1672653600000, csv ''2/1/2023'' ''10:00'' ''10'' ''Monday'' ''ann'' ''a''),
       (1672653900000, csv ''2/1/2023'' ''10:05'' ''10'' ''Monday'' ''bob'' ''b''),
       (1673262000000, csv ''9/1/2023'' ''11:00'' ''11'' ''Monday'' ''ann'' ''c''),
       (1673870400000, csv ''16/1/2023'' ''12:00'' ''12'' ''Monday'' ''bob'' ''d''),
       (1673956800000, csv ''17/1/2023'' ''12:00'' ''12'' ''Tue'' ''bob'' ''e'')]"
    unfolding sample_mondays_def by code_simp
  have s: "{r \<in> set ?rows. weekday r = Some d} = set (filter (\<lambda>r. weekday r = Some d) ?rows)"
    for d by auto
  have 1: "length (filter (\<lambda>r. weekday r = Some ''Monday'') ?rows) = 4"
    by (simp add: L with_datetime_def csv_def)
  have 2: "card (date ` {r \<in> set ?rows. weekday r = Some ''Monday''}) = 3"
    unfolding s by (simp add: L with_datetime_def csv_def)
  have 3: "card (date ` {r \<in> set ?rows. weekday r = Some ''Friday''}) = 0"
    unfolding s by (simp add: L with_datetime_def csv_def)
  have m: "''Monday'' \<in> set weekday_names" "''Friday'' \<in> set weekday_names"
    by (simp_all add: weekday_names_def)
  from weekdayData_average [of ?rows] m have
    "map_of (weekdayData ?rows) ''Monday''
       = Some (if card (date ` {r \<in> set ?rows. weekday r = Some ''Monday''}) > 0
               then parseFloat_toFixed1
                      (js_div (int (length (filter (\<lambda>r. weekday r = Some ''Monday'') ?rows)))
                         (int (card (date ` {r \<in> set ?rows. weekday r = Some ''Monday''}))))
               else 0)"
    "map_of (weekdayData ?rows) ''Friday''
       = Some (if card (date ` {r \<in> set ?rows. weekday r = Some ''Friday''}) > 0
               then parseFloat_toFixed1
                      (js_div (int (length (filter (\<lambda>r. weekday r = Some ''Friday'') ?rows)))
                         (int (card (date ` {r \<in> set ?rows. weekday r = Some ''Friday''}))))
               else 0)"
    by blast+
  then show ?thesis
    unfolding 1 2 3 by simp
qed

text \<open>
  Claim C7 as stated makes the average equal to the quotient. Four messages on three
  Mondays are reported as 1.3 (the double nearest to it), not as 4/3.
\<close>

theorem weekdayData_rounded:
  "map_of (weekdayData (parsedData int id sample_mondays)) ''Monday''
     = Some (5854679515581645 / 4503599627370496)
   \<and> (5854679515581645 / 4503599627370496 :: rat) \<noteq> 4 / 3"
  unfolding sample_mondays_def by code_simp


subsection \<open>The daily timeline\<close>

lemma mset_Object_entries: "mset (Object_entries obj) = mset obj"
  by (simp add: Object_entries_def)

lemma set_Object_entries: "set (Object_entries obj) = set obj"
  using mset_Object_entries [of obj] by (metis set_mset_mset)


lemma keys_update: "fst ` set (AList.update k v obj) = insert k (fst ` set obj)"
  using dom_update [of k v obj] by (simp add: dom_map_of_conv_image_fst)

lemma keys_obj_set: "fst ` set (obj_set obj k v) \<subseteq> insert k (fst ` set obj)"
  unfolding obj_set_def keys_update by (simp add: keys_update subset_insertI)

lemma distinct_obj_set: "distinct (map fst obj) \<Longrightarrow> distinct (map fst (obj_set obj k v))"
  by (simp add: obj_set_def distinct_update)

lemma keys_count_key: "fst ` set (count_key k obj) \<subseteq> insert k (fst ` set obj)"
proof -
  define obj1 where "obj1 = (if falsy (obj_get obj k) then obj_set obj k (Some 0) else obj)"
  have 1: "fst ` set obj1 \<subseteq> insert k (fst ` set obj)"
    unfolding obj1_def using keys_obj_set [of obj k "Some 0"] by (simp add: subset_insertI)
  have "count_key k obj = obj_set obj1 k (num_add (to_number (obj_get obj1 k)) (Some 1))"
    by (simp add: count_key_def obj1_def Let_def)
  then have "fst ` set (count_key k obj) \<subseteq> insert k (fst ` set obj1)"
    using keys_obj_set [of obj1 k] by simp
  with 1 show ?thesis by blast
qed

lemma distinct_count_key: "distinct (map fst obj) \<Longrightarrow> distinct (map fst (count_key k obj))"
  by (simp add: count_key_def Let_def distinct_obj_set)

lemma fold_count_key_keys:
  "distinct (map fst obj) \<Longrightarrow>
     distinct (map fst (fold (\<lambda>r. count_key (f r)) xs obj))
     \<and> fst ` set (fold (\<lambda>r. count_key (f r)) xs obj) \<subseteq> fst ` set obj \<union> f ` set xs"
proof (induction xs arbitrary: obj)
  case Nil
  then show ?case by simp
next
  case (Cons x xs)
  have d: "distinct (map fst (count_key (f x) obj))"
    using Cons.prems by (rule distinct_count_key)
  from Cons.IH [OF d] keys_count_key [of "f x" obj] 
  have "distinct (map fst (fold (\<lambda>r. count_key (f r)) xs (count_key (f x) obj)))"
    "fst ` set (fold (\<lambda>r. count_key (f r)) xs (count_key (f x) obj)) \<subseteq> insert (f x) (fst ` set obj) \<union> f ` set xs"
    by blast+
  then show ?case by simp
qed






subsection \<open>Words, phrases and senders\<close>

text \<open>
  Claim C9. On the messages \<open>a bb ccc\<close>, \<open>a bb ccc\<close> the word \<open>ccc\<close> has count 2, the
  phrase \<open>bb ccc\<close> has count 2 in the phrase table and, being below 3, is not among the
  top phrases. But the word table is an object literal, and \<open>constructor\<close> is a property
  every object inherits: its first occurrence is counted as \<open>NaN\<close>. With the messages
  \<open>constructor\<close>, \<open>bbb bbb\<close> the top words carry a count that is not a number and are
  not sorted descending by count.
\<close>

theorem topWords_inherited_key:
  "topWords sample_constructor = [(''constructor'', None), (''bbb'', Some 2)]
   \<and> \<not> sorted_wrt (\<lambda>a b. num_le b a) (map snd (topWords sample_constructor))
   \<and> topWords sample_spec_messages = [(''ccc'', Some 2)]
   \<and> phraseCounts sample_spec_messages = [(''bb ccc'', Some 2)]
   \<and> topPhrases sample_spec_messages = []"
proof -
  have 1: "topWords sample_constructor = [(''constructor'', None), (''bbb'', Some 2)]"
    unfolding sample_constructor_def by code_simp
  have 2: "topWords sample_spec_messages = [(''ccc'', Some 2)]"
    unfolding sample_spec_messages_def by code_simp
  have 3: "phraseCounts sample_spec_messages = [(''bb ccc'', Some 2)]"
    unfolding sample_spec_messages_def by code_simp
  have 4: "topPhrases sample_spec_messages = []"
    by (simp add: topPhrases_def 3 Object_entries_def num_ge_def js_sort_def)
  show ?thesis
    by (simp add: 1 2 3 4 num_le_def)
qed

text \<open>
  Claim C10. The counts per sender are kept in object literals too. A number assigned
  to the key \<open>__proto__\<close> is dropped by the inherited setter, and reading the key gives
  the prototype object: for a sender of that name \<open>senderData\<close> has no message count, and
  the counts that are numbers do not add up to the number of rows.
\<close>

theorem senderData_proto_sender:
  "senderData sample_proto_sender
     = [\<lparr>name = Some ''__proto__'', messages = Inherited, words = Inherited\<rparr>,
        \<lparr>name = Some ''ann'', messages = Own 1, words = Own 1\<rparr>]
   \<and> length sample_proto_sender = 2"
  unfolding sample_proto_sender_def by code_simp


subsection \<open>What holds for every input\<close>

text \<open>
  The word and phrase tables hold, for every key that no object inherits, the number of
  occurrences over all rows, each row contributing the words and the two- and three-word
  windows of its own message only. Every top phrase has a count of at least 3, both top
  lists have at most 30 entries, the top phrases are sorted descending by count, and so
  are the top words whenever every word count is a number.
\<close>

lemma count_key_other: "k \<noteq> k' \<Longrightarrow> map_of (count_key k' obj) k = map_of obj k"
  by (simp add: count_key_def Let_def obj_set_def update_conv')

lemma count_key_same:
  assumes "own_key k" "well_counted obj k"
  shows "map_of (count_key k obj) k = Some (Some (int (counted obj k) + 1))"
proof (cases "map_of obj k")
  case None
  then show ?thesis using assms
    by (simp add: count_key_def Let_def obj_set_def obj_get_def update_conv' own_key_def
          falsy_def to_number_def num_add_def counted_def)
next
  case (Some v)
  then obtain n where "v = Some n" "n > 0" using assms(2) by (cases v) (auto simp: well_counted_def)
  then show ?thesis using assms Some
    by (simp add: count_key_def Let_def obj_set_def obj_get_def update_conv' own_key_def
          falsy_def to_number_def num_add_def counted_def)
qed

lemma count_key_step:
  assumes "own_key k" "well_counted obj k"
  shows "well_counted (count_key k' obj) k \<and> counted (count_key k' obj) k = counted obj k + (if k' = k then 1 else 0)"
proof (cases "k' = k")
  case True
  then show ?thesis using count_key_same [OF assms]
    by (simp add: well_counted_def counted_def)
next
  case False
  then show ?thesis using assms count_key_other [of k k' obj]
    by (simp add: well_counted_def counted_def)
qed

lemma fold_count_key_counted:
  assumes "own_key k" "well_counted obj k"
  shows "well_counted (fold count_key ks obj) k \<and> counted (fold count_key ks obj) k = counted obj k + count_list ks k"
  using assms(2)
proof (induction ks arbitrary: obj)
  case Nil
  then show ?case by simp
next
  case (Cons x xs)
  from count_key_step [OF assms(1) Cons.prems, of x]
  have w: "well_counted (count_key x obj) k"
    and c: "counted (count_key x obj) k = counted obj k + (if x = k then 1 else 0)"
    by simp_all
  from Cons.IH [OF w] c show ?case by simp
qed

lemma map_of_fold_count_key:
  assumes "own_key k"
  shows "map_of (fold count_key ks []) k
     = (if count_list ks k = 0 then None else Some (Some (int (count_list ks k))))"
proof -
  have w0: "well_counted [] k" by (simp add: well_counted_def)
  from fold_count_key_counted [OF assms w0, of ks]
  have w: "well_counted (fold count_key ks []) k"
    and c: "counted (fold count_key ks []) k = count_list ks k"
    by (simp_all add: counted_def)
  show ?thesis
  proof (cases "map_of (fold count_key ks []) k")
    case None
    then show ?thesis using c by (simp add: counted_def)
  next
    case (Some v)
    then obtain n where "v = Some n" "n > 0" using w by (cases v) (auto simp: well_counted_def)
    then show ?thesis using c Some by (auto simp: counted_def)
  qed
qed

lemma fold_count_key_keys':
  "distinct (map fst obj) \<Longrightarrow>
     distinct (map fst (fold count_key ks obj))
     \<and> fst ` set (fold count_key ks obj) \<subseteq> fst ` set obj \<union> set ks"
  using fold_count_key_keys [of obj "\<lambda>k. k" ks] by simp

lemma fold_rows_concat:
  "fold (\<lambda>row. fold count_key (f row)) data obj = fold count_key (concat (map f data)) obj"
  by (induction data arbitrary: obj) simp_all

lemma phraseCounts_concat: "phraseCounts data = fold count_key (concat (map row_phrases data)) []"
proof -
  have "(\<lambda>row obj. case message row of None \<Rightarrow> obj
             | Some m \<Rightarrow> if m = [] then obj
                 else (let ws = tokens 1 m
                       in fold count_key (three_word_phrases ws)
                            (fold count_key (two_word_phrases ws) obj)))
      = (\<lambda>row. fold count_key (row_phrases row))"
    by (auto simp: fun_eq_iff row_phrases_def Let_def split: option.splits)
  then show ?thesis
    by (simp add: phraseCounts_def fold_rows_concat)
qed

lemma wordCounts_concat: "wordCounts data = fold count_key (concat (map row_words data)) []"
proof -
  have "(\<lambda>row obj. case message row of None \<Rightarrow> obj
             | Some m \<Rightarrow> if m = [] then obj else fold count_key (tokens 2 m) obj)
      = (\<lambda>row. fold count_key (row_words row))"
    by (auto simp: fun_eq_iff row_words_def split: option.splits)
  then show ?thesis
    by (simp add: wordCounts_def fold_rows_concat)
qed

lemma phrase_has_space: "p \<in> set (row_phrases r) \<Longrightarrow> CHR '' '' \<in> set p"
  by (auto simp: row_phrases_def two_word_phrases_def three_word_phrases_def
        split: option.splits if_splits)

lemma own_key_space: "CHR '' '' \<in> set p \<Longrightarrow> own_key p"
  by (auto simp: own_key_def Object_prototype_keys_def)

lemma count_list_concat: "count_list (concat xss) x = (\<Sum>xs\<leftarrow>xss. count_list xs x)"
  by (induction xss) simp_all

lemma phraseCounts_exact:
  "map_of (phraseCounts data) p
     = (if (\<Sum>r\<leftarrow>data. count_list (row_phrases r) p) = 0 then None
        else Some (Some (int (\<Sum>r\<leftarrow>data. count_list (row_phrases r) p))))"
proof (cases "CHR '' '' \<in> set p")
  case True
  then show ?thesis
    using map_of_fold_count_key [OF own_key_space, of p "concat (map row_phrases data)"]
    by (simp add: phraseCounts_concat count_list_concat o_def)
next
  case False
  then have n: "p \<notin> set (concat (map row_phrases data))"
    using phrase_has_space by auto
  then have "count_list (concat (map row_phrases data)) p = 0"
    by (simp add: count_list_0_iff)
  moreover have "map_of (phraseCounts data) p = None"
    using fold_count_key_keys' [of "[]" "concat (map row_phrases data)"] n
    by (auto simp: phraseCounts_concat map_of_eq_None_iff)
  ultimately show ?thesis
    by (simp add: count_list_concat o_def)
qed

lemma set_js_insert: "set (js_insert cmp x ys) = insert x (set ys)"
  by (induction ys) auto

lemma set_js_sort: "set (js_sort cmp xs) = set xs"
  by (induction xs) (simp_all add: js_sort_def set_js_insert)

lemma js_sort_descending:
  "js_sort (\<lambda>a b. num_sub (snd b) (snd a)) xs
     = js_sort (\<lambda>a b. num_sub (map_option uminus (snd a)) (map_option uminus (snd b))) xs"
proof -
  have "(\<lambda>a b. num_sub (snd b) (snd a))
      = (\<lambda>(a::'a \<times> num) (b::'a \<times> num). num_sub (map_option uminus (snd a)) (map_option uminus (snd b)))"
    by (auto simp: fun_eq_iff num_sub_def split: option.splits)
  then show ?thesis by simp
qed

lemma sorted_descending:
  assumes "\<forall>e \<in> set xs. snd e \<noteq> None"
  shows "sorted_wrt (\<lambda>a b. num_le b a) (map snd (js_sort (\<lambda>a b. num_sub (snd b) (snd a)) xs))"
proof -
  let ?f = "\<lambda>e::'a \<times> num. map_option uminus (snd e)"
  let ?S = "sort_key (\<lambda>e. the (?f e)) xs"
  have v: "\<forall>e \<in> set xs. ?f e \<noteq> None" using assms by simp
  have eq: "js_sort (\<lambda>a b. num_sub (snd b) (snd a)) xs = ?S"
    unfolding js_sort_descending using v by (rule js_sort_key)
  have "sorted (map (\<lambda>e. the (?f e)) ?S)" by simp
  then have "sorted_wrt (\<lambda>a b. the (?f a) \<le> the (?f b)) ?S"
    by (simp add: sorted_map)
  moreover have "num_le (snd b) (snd a)"
    if ab: "a \<in> set ?S" "b \<in> set ?S" "the (?f a) \<le> the (?f b)" for a b
  proof -
    from assms ab(1) obtain x where x: "snd a = Some x" by auto
    from assms ab(2) obtain y where y: "snd b = Some y" by auto
    show ?thesis using ab(3) by (simp add: x y num_le_def)
  qed
  ultimately have "sorted_wrt (\<lambda>a b. num_le (snd b) (snd a)) ?S"
    by (rule sorted_wrt_mono_rel [rotated])
  then show ?thesis
    by (simp add: eq sorted_wrt_map)
qed

lemma phraseCounts_values:
  assumes "e \<in> set (phraseCounts data)"
  shows "snd e = Some (int (\<Sum>r\<leftarrow>data. count_list (row_phrases r) (fst e)))"
proof -
  have d: "distinct (map fst (phraseCounts data))"
    using fold_count_key_keys' [of "[]" "concat (map row_phrases data)"]
    by (simp add: phraseCounts_concat)
  have "map_of (phraseCounts data) (fst e) = Some (snd e)"
    using assms d by (simp add: map_of_eq_Some_iff)
  then show ?thesis
    by (simp add: phraseCounts_exact split: if_splits)
qed

lemma topPhrases_properties:
  "length (topPhrases data) \<le> 30
   \<and> (\<forall>e \<in> set (topPhrases data).
         snd e = Some (int (\<Sum>r\<leftarrow>data. count_list (row_phrases r) (fst e)))
         \<and> 3 \<le> (\<Sum>r\<leftarrow>data. count_list (row_phrases r) (fst e)))
   \<and> sorted_wrt (\<lambda>a b. num_le b a) (map snd (topPhrases data))"
proof (intro conjI ballI)
  let ?F = "filter (\<lambda>p. num_ge (snd p) 3) (Object_entries (phraseCounts data))"
  show "length (topPhrases data) \<le> 30"
    by (simp add: topPhrases_def)
  have sub: "set (topPhrases data) \<subseteq> set ?F"
    unfolding topPhrases_def using set_take_subset [of 30] by (metis set_js_sort)
  { fix e assume "e \<in> set (topPhrases data)"
    with sub have e: "e \<in> set (phraseCounts data)" "num_ge (snd e) 3"
      by (auto simp: set_Object_entries)
    from phraseCounts_values [OF e(1)] e(2)
    show "snd e = Some (int (\<Sum>r\<leftarrow>data. count_list (row_phrases r) (fst e)))"
      "3 \<le> (\<Sum>r\<leftarrow>data. count_list (row_phrases r) (fst e))"
      by (simp_all add: num_ge_def) }
  have "\<forall>e \<in> set ?F. snd e \<noteq> None"
    by (auto simp: num_ge_def split: option.splits)
  then have "sorted_wrt (\<lambda>a b. num_le b a)
      (map snd (js_sort (\<lambda>a b. num_sub (snd b) (snd a)) ?F))"
    by (rule sorted_descending)
  then show "sorted_wrt (\<lambda>a b. num_le b a) (map snd (topPhrases data))"
    unfolding topPhrases_def take_map [symmetric] by (rule sorted_wrt_take)
qed

lemma topWords_properties:
  "length (topWords data) \<le> 30
   \<and> ((\<forall>e \<in> set (wordCounts data). snd e \<noteq> None)
        \<longrightarrow> sorted_wrt (\<lambda>a b. num_le b a) (map snd (topWords data)))"
proof (intro conjI impI)
  show "length (topWords data) \<le> 30"
    by (simp add: topWords_def)
  assume "\<forall>e \<in> set (wordCounts data). snd e \<noteq> None"
  then have "\<forall>e \<in> set (Object_entries (wordCounts data)). snd e \<noteq> None"
    by (simp add: set_Object_entries)
  then have "sorted_wrt (\<lambda>a b. num_le b a)
      (map snd (js_sort (\<lambda>a b. num_sub (snd b) (snd a)) (Object_entries (wordCounts data))))"
    by (rule sorted_descending)
  then show "sorted_wrt (\<lambda>a b. num_le b a) (map snd (topWords data))"
    unfolding topWords_def take_map [symmetric] by (rule sorted_wrt_take)
qed

lemma wordCounts_exact:
  assumes "own_key w"
  shows "map_of (wordCounts data) w
     = (if (\<Sum>r\<leftarrow>data. count_list (row_words r) w) = 0 then None
        else Some (Some (int (\<Sum>r\<leftarrow>data. count_list (row_words r) w))))"
  using map_of_fold_count_key [OF assms, of "concat (map row_words data)"]
  by (simp add: wordCounts_concat count_list_concat o_def)

text \<open>
  Every distinct sender appears exactly once in \<open>senderData\<close>. When no sender is named
  \<open>__proto__\<close> and the senders have different property keys, each entry holds the
  number of rows of its sender and the counts add up to the number of rows.
\<close>

lemma new_Set_props: "distinct (new_Set xs) \<and> set (new_Set xs) = set xs"
  using fold_set_add [of "[]" "\<lambda>x. x" xs] by (simp add: new_Set_def)

lemma senderData_names:
  "map name (senderData data) = uniqueSenders data
   \<and> distinct (uniqueSenders data)
   \<and> set (uniqueSenders data) = sender ` set data"
  by (simp add: senderData_def o_def uniqueSenders_def new_Set_props)

lemma map_of_fold_obj_set:
  assumes "inj_on key (set ss)" and "\<forall>s \<in> set ss. key s \<noteq> ''__proto__''" and "s \<in> set ss"
  shows "map_of (fold (\<lambda>s obj. obj_set obj (key s) (g s)) ss obj) (key s) = Some (g s)"
  using assms
proof (induction ss arbitrary: s rule: rev_induct)
  case Nil
  then show ?case by simp
next
  case (snoc x xs)
  show ?case
  proof (cases "s = x")
    case True
    then show ?thesis using snoc.prems by (simp add: obj_set_def update_conv')
  next
    case False
    then have sx: "s \<in> set xs" using snoc.prems by simp
    have "key s \<noteq> key x" using snoc.prems(1) False sx by (auto simp: inj_on_def)
    moreover have "inj_on key (set xs)" using snoc.prems(1) by (simp add: inj_on_def)
    ultimately show ?thesis
      using snoc.IH [of s] snoc.prems(2) sx by (simp add: obj_set_def update_conv')
  qed
qed

lemma sum_counts_senders:
  "(\<Sum>s\<leftarrow>uniqueSenders data. int (length (filter (\<lambda>r. sender r = s) data))) = int (length data)"
proof -
  have c: "length (filter (\<lambda>r. sender r = s) data) = count_list (map sender data) s" for s
    by (induction data) auto
  have "(\<Sum>s\<leftarrow>uniqueSenders data. length (filter (\<lambda>r. sender r = s) data))
      = sum (count_list (map sender data)) (set (uniqueSenders data))"
    using senderData_names [of data] by (simp add: c sum_list_distinct_conv_sum_set)
  also have "\<dots> = length (map sender data)"
    using senderData_names [of data] by (intro sum_count_set) auto
  finally have "(\<Sum>s\<leftarrow>uniqueSenders data. length (filter (\<lambda>r. sender r = s) data)) = length data"
    by simp
  then have "int (\<Sum>s\<leftarrow>uniqueSenders data. length (filter (\<lambda>r. sender r = s) data)) = int (length data)"
    by simp
  then show ?thesis
    by (simp add: sum_list_of_nat [symmetric] o_def)
qed

lemma senderData_partition:
  assumes np: "\<forall>r \<in> set data. sender r \<noteq> Some ''__proto__''"
    and inj: "inj_on key_of (sender ` set data)"
  shows "(\<forall>e \<in> set (senderData data).
            messages e = Own (int (length (filter (\<lambda>r. sender r = name e) data))))
    \<and> (\<Sum>e\<leftarrow>senderData data. case messages e of Own n \<Rightarrow> n | _ \<Rightarrow> 0) = int (length data)"
proof -
  let ?cnt = "\<lambda>s. int (length (filter (\<lambda>r. sender r = s) data))"
  have set_u: "set (uniqueSenders data) = sender ` set data"
    using senderData_names by blast
  have k: "\<forall>s \<in> set (uniqueSenders data). key_of s \<noteq> ''__proto__''"
    using np unfolding set_u by (auto simp: key_of_def split: option.splits)
  have inj': "inj_on key_of (set (uniqueSenders data))"
    using inj unfolding set_u .
  have g: "obj_get (messageCountBySender data) (key_of s) = Own (?cnt s)"
    if "s \<in> set (uniqueSenders data)" for s
    using map_of_fold_obj_set [OF inj' k that, of ?cnt "[]"] k that
    by (simp add: obj_get_def messageCountBySender_def)
  have 1: "\<forall>e \<in> set (senderData data). messages e = Own (?cnt (name e))"
    using g by (auto simp: senderData_def)
  have "map (\<lambda>e. case messages e of Own n \<Rightarrow> n | _ \<Rightarrow> 0) (senderData data)
      = map ?cnt (uniqueSenders data)"
    using g by (simp add: senderData_def o_def)
  then have 2: "(\<Sum>e\<leftarrow>senderData data. case messages e of Own n \<Rightarrow> n | _ \<Rightarrow> 0) = int (length data)"
    using sum_counts_senders [of data] by simp
  from 1 2 show ?thesis by blast
qed

end
